theory Spec2Isabelle
  imports Complex_Main "HOL-Library.Word"
begin

unbundle bit_operations_syntax

section \<open>The decoder of ermangizer-modbus.ts\<close>

text \<open>
  A shallow embedding of the class \<open>ModbusDecoder\<close> of \<^verbatim>\<open>src/ermangizer-modbus.ts\<close>.

  \<^item> A Node \<open>Buffer\<close> is a list of bytes (\<open>8 word\<close>).
  \<^item> A JavaScript number that only ever holds an integer is a \<open>nat\<close> or an \<open>int\<close>; the
    operands of the bitwise operators of the CRC loop are 32-bit words, as JavaScript converts
    them (\<open>ToInt32\<close>), and \<open>>>\<close> is the sign-propagating shift \<open>signed_drop_bit\<close>.
  \<^item> A number that can carry a fraction (a scaled register value) is a \<open>rat\<close>: the binary
    floating point of JavaScript is idealised to exact arithmetic, with the scale factors
    0.1 and 0.01 read as the decimal fractions they are written as.
  \<^item> A JavaScript string is a list of code units below 256 (\<open>char\<close>).
  \<^item> A JavaScript object is an association list in insertion order; assigning a property
    that exists keeps its position and replaces its value.
  \<^item> \<open>throw\<close> is the left injection of a sum type.
  \<^item> The clock read by \<open>new Date().toISOString()\<close> is a parameter of the decoder.
\<close>

subsection \<open>Values, objects and exceptions\<close>

type_synonym byte = "8 word"
type_synonym buffer = "byte list"
type_synonym int32 = "32 word"

datatype jsval =
    JNum rat
  | JStr string
  | JBool bool
  | JObj "(string \<times> jsval) list"

type_synonym jsobj = "(string \<times> jsval) list"

text \<open>
  \<open>Error msg\<close> is \<open>new Error(msg)\<close>, thrown by the decoder itself. \<open>RangeError\<close> is the
  exception Node's \<open>Buffer.readUInt16BE\<close> and \<open>readUInt16LE\<close> throw for an offset whose two
  bytes are not both inside the buffer.
\<close>

datatype exn = Error string | RangeError

text \<open>\<open>obj[k] = v\<close>.\<close>

fun set_prop :: "string \<Rightarrow> jsval \<Rightarrow> jsobj \<Rightarrow> jsobj" where
  "set_prop k v [] = [(k, v)]"
| "set_prop k v (p # ps) = (if fst p = k then (k, v) # ps else p # set_prop k v ps)"

text \<open>\<open>obj[k]\<close>, with \<open>None\<close> for \<open>undefined\<close>.\<close>

definition get_prop :: "jsobj \<Rightarrow> string \<Rightarrow> jsval option" where
  "get_prop obj k = map_of obj k"

text \<open>The object literal \<open>{...spread, k1: v1, ..., kn: vn}\<close>: properties are defined left to right.\<close>

definition obj_literal :: "jsobj \<Rightarrow> jsobj \<Rightarrow> jsobj" where
  "obj_literal spread props = foldl (\<lambda>obj p. set_prop (fst p) (snd p) obj) spread props"

definition keys :: "jsobj \<Rightarrow> string list" where
  "keys obj = map fst obj"

subsection \<open>Numbers as text\<close>

definition digit_char :: "nat \<Rightarrow> char" where
  "digit_char d = ''0123456789abcdef'' ! d"

text \<open>\<open>n.toString(radix)\<close> for a natural number \<open>n\<close>; the decoder uses the radices 10 and 16.\<close>

function toString_radix :: "nat \<Rightarrow> nat \<Rightarrow> string" where
  "toString_radix radix n =
     (if radix < 2 \<or> n < radix then [digit_char n]
      else toString_radix radix (n div radix) @ [digit_char (n mod radix)])"
  by pat_completeness auto
termination
  by (relation "measure (\<lambda>(radix, n). n)") auto

declare toString_radix.simps [simp del]

text \<open>\<open>s.padStart(n, '0')\<close>.\<close>

definition padStart0 :: "nat \<Rightarrow> string \<Rightarrow> string" where
  "padStart0 n s = replicate (n - length s) (CHR ''0'') @ s"

text \<open>\<open>toUpperCase\<close> on the letters of ASCII; the decoder applies it to hexadecimal digits only.\<close>

definition toUpperCase_char :: "char \<Rightarrow> char" where
  "toUpperCase_char c =
     (case map_of (zip ''abcdefghijklmnopqrstuvwxyz'' ''ABCDEFGHIJKLMNOPQRSTUVWXYZ'') c of
        Some u \<Rightarrow> u
      | None \<Rightarrow> c)"

definition toUpperCase :: "string \<Rightarrow> string" where
  "toUpperCase s = map toUpperCase_char s"

text \<open>\<open>buffer.toString('hex')\<close>: two lower-case digits for each byte.\<close>

definition toString_hex :: "buffer \<Rightarrow> string" where
  "toString_hex b = concat (map (\<lambda>x. [digit_char (unat x div 16), digit_char (unat x mod 16)]) b)"

text \<open>
  \<open>Number(x.toFixed(3))\<close>: \<open>toFixed\<close> takes the sign off, picks the integer \<open>n\<close> with \<open>n / 1000\<close>
  nearest to the magnitude (the larger one of two) and prints it with three decimals; \<open>Number\<close>
  reads the text back.
\<close>

definition toFixed3 :: "rat \<Rightarrow> rat" where
  "toFixed3 x =
     (if x < 0 then - (of_int (round (- x * 1000)) / 1000) else of_int (round (x * 1000)) / 1000)"

subsection \<open>The tables\<close>

record ModbusRegister =
  address :: nat
  name :: string
  unit :: string
  description :: string
  readOnly :: bool
  scale :: "rat option"

definition reg :: "nat \<Rightarrow> string \<Rightarrow> string \<Rightarrow> string \<Rightarrow> bool \<Rightarrow> rat option \<Rightarrow> ModbusRegister" where
  "reg a n u d r s = \<lparr>address = a, name = n, unit = u, description = d, readOnly = r, scale = s\<rparr>"

text \<open>The unit of the two temperatures is the degree sign (code unit 0xB0) followed by \<open>C\<close>.\<close>

definition MODBUS_REGISTERS :: "(nat \<times> ModbusRegister) list" where
  "MODBUS_REGISTERS =
    [(0x0001, reg 0x0001 ''output_frequency'' ''0.1 Hz'' ''Current output frequency value'' True (Some (1 / 10))),
     (0x0002, reg 0x0002 ''output_current'' ''0.1 A'' ''Current output current value'' True (Some (1 / 10))),
     (0x0003, reg 0x0003 ''input_voltage'' ''V'' ''Current input voltage value'' True None),
     (0x0004, reg 0x0004 ''temperature'' (CHR 0xB0 # ''C'') ''Current temperature display'' True None),
     (0x0005, reg 0x0005 ''pressure'' ''0.01 bar'' ''Actual pressure value'' True (Some (1 / 100))),
     (0x0006, reg 0x0006 ''error_code'' '''' ''Error code'' True None),
     (0x0007, reg 0x0007 ''status_code'' '''' ''Status code'' True None),
     (0x0010, reg 0x0010 ''factory_reset'' '''' ''Restore factory settings'' False None),
     (0x0011, reg 0x0011 ''initial_pressure_diff'' ''0.01 bar'' ''Initial pressure difference'' False (Some (1 / 100))),
     (0x0012, reg 0x0012 ''water_shortage_pressure'' ''0.01 bar'' ''Pressure value during water shortage'' False (Some (1 / 100))),
     (0x0013, reg 0x0013 ''water_shortage_time'' ''s'' ''Water shortage time'' False None),
     (0x0014, reg 0x0014 ''carrier_frequency'' '''' ''Carrier frequency'' False None),
     (0x0015, reg 0x0015 ''accel_decel_time'' ''0.1 ms'' ''Acceleration and deceleration time'' False (Some (1 / 10))),
     (0x0016, reg 0x0016 ''pressure_tolerance'' ''0.01 bar'' ''Allowable pressure error'' False (Some (1 / 100))),
     (0x0017, reg 0x0017 ''min_shutdown_freq'' ''0.1 Hz'' ''Minimum shutdown frequency'' False (Some (1 / 10))),
     (0x0018, reg 0x0018 ''continuous_operation'' '''' ''Enable continuous operation'' False None),
     (0x0019, reg 0x0019 ''measurement_range'' ''bar'' ''Measurement range selection'' False None),
     (0x0020, reg 0x0020 ''overheat_setting'' (CHR 0xB0 # ''C'') ''Overheat setting'' False None),
     (0x0021, reg 0x0021 ''direction_setting'' '''' ''Set direction'' False None),
     (0x0022, reg 0x0022 ''local_address'' '''' ''Local address'' False None),
     (0x1000, reg 0x1000 ''set_pressure'' ''0.01 BAR'' ''Set pressure value'' False (Some (1 / 100))),
     (0x1001, reg 0x1001 ''status_command'' '''' ''Command status code'' False None)]"

definition ERROR_CODES :: "(nat \<times> string) list" where
  "ERROR_CODES =
    [(0, ''No error''),
     (1, ''Equipment overcurrent, short circuit''),
     (2, ''Overload''),
     (3, ''Low pressure (no pressure sensor)''),
     (4, ''Overpressure''),
     (5, ''Low pressure''),
     (6, ''Overpressure''),
     (7, ''Phase loss (power phase loss)''),
     (8, ''Overheating''),
     (9, ''Insufficient power''),
     (10, ''Software current overload''),
     (11, ''Communication failure''),
     (12, ''Default''),
     (13, ''Motor locked''),
     (14, ''Motor phase loss''),
     (15, ''Motor overspeed''),
     (16, ''Memory failure (FLASH failure)'')]"

text \<open>\<open>table[key] || dflt\<close> for a table of non-empty strings.\<close>

definition lookup_or :: "(nat \<times> string) list \<Rightarrow> nat \<Rightarrow> string \<Rightarrow> string" where
  "lookup_or table key dflt = (case map_of table key of Some s \<Rightarrow> s | None \<Rightarrow> dflt)"

subsection \<open>inputToBuffer\<close>

text \<open>
  The payload of a message: a Buffer, a string, an array (of integers), or anything else.
\<close>

datatype input = InBuffer buffer | InString string | InArray "int list" | InOther

text \<open>The characters below 256 that the regular expression \<open>\s\<close> matches.\<close>

definition isWhitespace :: "char \<Rightarrow> bool" where
  "isWhitespace c = ((of_char c :: nat) \<in> {0x09, 0x0A, 0x0B, 0x0C, 0x0D, 0x20, 0xA0})"

definition unhex :: "char \<Rightarrow> nat option" where
  "unhex c =
     (let n = (of_char c :: nat) in
      if 48 \<le> n \<and> n \<le> 57 then Some (n - 48)
      else if 97 \<le> n \<and> n \<le> 102 then Some (n - 87)
      else if 65 \<le> n \<and> n \<le> 70 then Some (n - 55)
      else None)"

text \<open>
  Node's \<open>Buffer.from(s, 'hex')\<close>: one byte for each pair of hexadecimal digits, up to the first
  pair that is not one; a last single character is dropped.
\<close>

fun Buffer_from_hex :: "string \<Rightarrow> buffer" where
  "Buffer_from_hex (a # b # rest) =
     (case unhex a of
        None \<Rightarrow> []
      | Some x \<Rightarrow> (case unhex b of
          None \<Rightarrow> []
        | Some y \<Rightarrow> of_nat (x * 16 + y) # Buffer_from_hex rest))"
| "Buffer_from_hex _ = []"

text \<open>
  Node's \<open>Buffer.from(array)\<close>: each element is converted as an element of a \<open>Uint8Array\<close> is
  (\<open>ToUint8\<close>), which keeps the low eight bits of an integer.
\<close>

definition Buffer_from_array :: "int list \<Rightarrow> buffer" where
  "Buffer_from_array xs = map word_of_int xs"

definition inputToBuffer :: "input \<Rightarrow> exn + buffer" where
  "inputToBuffer inp =
     (case inp of
        InBuffer b \<Rightarrow> Inr b
      | InString s \<Rightarrow>
          (let hexString = filter (\<lambda>c. \<not> isWhitespace c) s in
           if length hexString mod 2 \<noteq> 0 then Inl (Error ''Invalid hex string length'')
           else Inr (Buffer_from_hex hexString))
      | InArray xs \<Rightarrow> Inr (Buffer_from_array xs)
      | InOther \<Rightarrow> Inl (Error ''Unsupported input type. Expected Buffer, hex string or number array.''))"

subsection \<open>calculateCRC16 and verifyCRC\<close>

text \<open>The body of the inner loop.\<close>

definition crc_shift :: "int32 \<Rightarrow> int32" where
  "crc_shift crc =
     (if crc AND 0x0001 \<noteq> 0 then signed_drop_bit 1 crc XOR 0xA001 else signed_drop_bit 1 crc)"

text \<open>\<open>for (let j = 0; j < 8; j++)\<close>, from \<open>j\<close> on.\<close>

function crc_bits :: "nat \<Rightarrow> int32 \<Rightarrow> int32" where
  "crc_bits j crc = (if j < 8 then crc_bits (j + 1) (crc_shift crc) else crc)"
  by pat_completeness auto
termination
  by (relation "measure (\<lambda>(j, crc). 8 - j)") auto

declare crc_bits.simps [simp del]

text \<open>\<open>for (let i = 0; i < data.length; i++)\<close>, from \<open>i\<close> on.\<close>

function crc_bytes :: "buffer \<Rightarrow> nat \<Rightarrow> int32 \<Rightarrow> int32" where
  "crc_bytes data i crc =
     (if i < length data then crc_bytes data (i + 1) (crc_bits 0 (crc XOR ucast (data ! i)))
      else crc)"
  by pat_completeness auto
termination
  by (relation "measure (\<lambda>(data, i, crc). length data - i)") auto

declare crc_bytes.simps [simp del]

text \<open>The number returned is the value of the 32-bit accumulator.\<close>

definition calculateCRC16 :: "buffer \<Rightarrow> int" where
  "calculateCRC16 data = sint (crc_bytes data 0 0xFFFF)"

definition readUInt16LE :: "buffer \<Rightarrow> nat \<Rightarrow> exn + nat" where
  "readUInt16LE b offset =
     (if offset + 2 \<le> length b then Inr (unat (b ! offset) + unat (b ! (offset + 1)) * 256)
      else Inl RangeError)"

definition readUInt16BE :: "buffer \<Rightarrow> nat \<Rightarrow> exn + nat" where
  "readUInt16BE b offset =
     (if offset + 2 \<le> length b then Inr (unat (b ! offset) * 256 + unat (b ! (offset + 1)))
      else Inl RangeError)"

text \<open>\<open>data.slice(0, -2)\<close>.\<close>

definition slice_0_minus2 :: "buffer \<Rightarrow> buffer" where
  "slice_0_minus2 data = take (length data - 2) data"

definition verifyCRC :: "buffer \<Rightarrow> exn + bool" where
  "verifyCRC data =
     (if length data < 2 then Inr False
      else
        (let messageWithoutCRC = slice_0_minus2 data in
         case readUInt16LE data (length data - 2) of
           Inl e \<Rightarrow> Inl e
         | Inr receivedCRC \<Rightarrow>
             (let calculatedCRC = calculateCRC16 messageWithoutCRC
              in Inr (int receivedCRC = calculatedCRC))))"

subsection \<open>decodeRegisterValue\<close>

definition num :: "nat \<Rightarrow> jsval" where
  "num n = JNum (of_nat n)"

definition decodeStatusRegister :: "nat \<Rightarrow> jsobj" where
  "decodeStatusRegister status =
     [(''water_shortage'', JBool (status AND 0x0001 \<noteq> 0)),
      (''running'', JBool (status AND 0x0002 \<noteq> 0)),
      (''raw_value'', num status)]"

definition statusMap :: "(nat \<times> string) list" where
  "statusMap = [(0x00, ''invalid''), (0x01, ''running''), (0x04, ''stop''), (0x11, ''error reset'')]"

definition rangeMap :: "(nat \<times> string) list" where
  "rangeMap = [(6, ''6 bar''), (10, ''10 bar''), (16, ''16 bar''), (25, ''25 bar'')]"

text \<open>
  \<open>if (register.scale)\<close> holds for a scale that is present and not zero. The \<open>switch\<close> on the
  address returns from its five cases; the generic object is what is left.
\<close>

definition decodeRegisterValue :: "ModbusRegister \<Rightarrow> nat \<Rightarrow> jsobj" where
  "decodeRegisterValue register rawValue =
     (let v = (case scale register of
                 Some s \<Rightarrow> if s \<noteq> 0 then toFixed3 (of_nat rawValue * s) else of_nat rawValue
               | None \<Rightarrow> of_nat rawValue)
      in
      if address register = 0x0006 then
        [(''code'', num rawValue),
         (''description'', JStr (lookup_or ERROR_CODES rawValue ''Unknown error'')),
         (''raw_value'', num rawValue)]
      else if address register = 0x0007 then decodeStatusRegister rawValue
      else if address register = 0x0014 then
        [(''value'', JStr (if rawValue = 72 then ''H'' else ''L'')),
         (''code'', num rawValue),
         (''raw_value'', num rawValue)]
      else if address register = 0x1001 then
        [(''code'', num rawValue),
         (''description'', JStr (lookup_or statusMap rawValue ''Unknown status'')),
         (''raw_value'', num rawValue)]
      else if address register = 0x0019 then
        [(''value'', JStr (lookup_or rangeMap rawValue
            (''Unknown ('' @ toString_radix 10 rawValue @ '')''))),
         (''code'', num rawValue),
         (''raw_value'', num rawValue)]
      else
        [(''value'', JNum v), (''raw_value'', num rawValue)])"

subsection \<open>decodeModbusMessage\<close>

definition functionNames :: "(nat \<times> string) list" where
  "functionNames = [(3, ''Read Holding Registers''), (6, ''Write Single Register''), (131, ''Error Response'')]"

definition getFunctionName :: "nat \<Rightarrow> string" where
  "getFunctionName code = lookup_or functionNames code (''Unknown ('' @ toString_radix 10 code @ '')'')"

definition errorDescriptions :: "(nat \<times> string) list" where
  "errorDescriptions =
     [(1, ''Illegal Function''), (2, ''Illegal Data Address''),
      (3, ''Illegal Data Value''), (4, ''Server Device Failure'')]"

text \<open>The entry of a register of the table in a function-3 frame.\<close>

definition known_entry :: "ModbusRegister \<Rightarrow> nat \<Rightarrow> jsval" where
  "known_entry register registerValue =
     JObj (obj_literal (decodeRegisterValue register registerValue)
       [(''unit'', JStr (unit register)),
        (''description'', JStr (description register)),
        (''address'', num (address register)),
        (''read_only'', JBool (readOnly register))])"

text \<open>The entry of an address that the table does not have, and its key.\<close>

definition unknown_entry :: "nat \<Rightarrow> nat \<Rightarrow> jsval" where
  "unknown_entry registerAddress registerValue =
     JObj [(''value'', num registerValue),
           (''raw_value'', num registerValue),
           (''unit'', JStr ''unknown''),
           (''description'', JStr ''Unknown register''),
           (''address'', num registerAddress)]"

definition unknown_key :: "nat \<Rightarrow> string" where
  "unknown_key registerAddress = ''unknown_0x'' @ padStart0 4 (toString_radix 16 registerAddress)"

text \<open>The entry of a register of the table in a function-6 frame.\<close>

definition write_entry :: "ModbusRegister \<Rightarrow> nat \<Rightarrow> nat \<Rightarrow> jsval" where
  "write_entry register registerAddress registerValue =
     JObj (obj_literal (decodeRegisterValue register registerValue)
       [(''unit'', JStr (unit register)),
        (''description'', JStr (description register)),
        (''address'', num registerAddress),
        (''read_only'', JBool (readOnly register)),
        (''operation'', JStr ''write'')])"

text \<open>The body of the loop over the registers of a function-3 frame.\<close>

definition store_register :: "nat \<Rightarrow> nat \<Rightarrow> jsobj \<Rightarrow> jsobj" where
  "store_register registerAddress registerValue registers =
     (case map_of MODBUS_REGISTERS registerAddress of
        Some register \<Rightarrow>
          set_prop (name register) (known_entry register registerValue) registers
      | None \<Rightarrow>
          set_prop (unknown_key registerAddress)
            (unknown_entry registerAddress registerValue) registers)"

text \<open>
  \<open>for (let i = 0; i < registerCount; i++)\<close>, from \<open>i\<close> on, on the object \<open>result.registers\<close>.
  \<open>registerCount\<close> is \<open>byteCount / 2\<close>, a division of numbers: it is a half-integer for an odd
  byte count.
\<close>

function read_registers :: "buffer \<Rightarrow> rat \<Rightarrow> nat \<Rightarrow> jsobj \<Rightarrow> exn + jsobj" where
  "read_registers buffer registerCount i registers =
     (if of_nat i < registerCount then
        (case readUInt16BE buffer (3 + i * 2) of
           Inl e \<Rightarrow> Inl e
         | Inr registerValue \<Rightarrow>
             (let registerAddress = 0x0001 + i in
              read_registers buffer registerCount (i + 1)
                (store_register registerAddress registerValue registers)))
      else Inr registers)"
  by pat_completeness auto
termination
proof (relation "measure (\<lambda>(buffer, registerCount, i, registers). nat \<lceil>registerCount\<rceil> - i)")
  show "wf (measure (\<lambda>(buffer, registerCount, i, registers). nat \<lceil>registerCount\<rceil> - i))"
    by simp
next
  fix buffer :: buffer and registerCount :: rat and i :: nat and registers :: jsobj
    and registerValue :: nat and registerAddress :: nat
  assume "of_nat i < registerCount"
  then have "int i < \<lceil>registerCount\<rceil>"
    by (simp add: less_ceiling_iff)
  then show "((buffer, registerCount, i + 1,
        store_register registerAddress registerValue registers),
       buffer, registerCount, i, registers)
      \<in> measure (\<lambda>(buffer, registerCount, i, registers). nat \<lceil>registerCount\<rceil> - i)"
    by simp
qed

declare read_registers.simps [simp del]

text \<open>The object \<open>result\<close> before the dispatch on the function code.\<close>

definition initial_result :: "string \<Rightarrow> buffer \<Rightarrow> jsobj" where
  "initial_result now buffer =
     (let slaveAddress = unat (buffer ! 0); functionCode = unat (buffer ! 1) in
      [(''slave_address'', num slaveAddress),
       (''function_code'', num functionCode),
       (''function_name'', JStr (getFunctionName functionCode)),
       (''raw_data'', JStr (toUpperCase (toString_hex buffer))),
       (''timestamp'', JStr now),
       (''registers'', JObj [])])"

text \<open>
  The dispatch on the function code. The frame has four bytes or more here, so that
  \<open>buffer[0]\<close>, \<open>buffer[1]\<close> and \<open>buffer[2]\<close> are bytes.
\<close>

definition dispatch :: "string \<Rightarrow> buffer \<Rightarrow> exn + jsobj" where
  "dispatch now buffer =
     (let functionCode = unat (buffer ! 1); result = initial_result now buffer in
      if functionCode = 0x03 then
        (let byteCount = unat (buffer ! 2); registerCount = of_nat byteCount / 2 in
         case read_registers buffer registerCount 0 [] of
           Inl e \<Rightarrow> Inl e
         | Inr registers \<Rightarrow> Inr (set_prop ''registers'' (JObj registers) result))
      else if functionCode = 0x06 then
        (case readUInt16BE buffer 2 of
           Inl e \<Rightarrow> Inl e
         | Inr registerAddress \<Rightarrow>
             (case readUInt16BE buffer 4 of
                Inl e \<Rightarrow> Inl e
              | Inr registerValue \<Rightarrow>
                  (case map_of MODBUS_REGISTERS registerAddress of
                     Some register \<Rightarrow>
                       Inr (set_prop ''registers''
                         (JObj (set_prop (name register)
                            (write_entry register registerAddress registerValue) []))
                         result)
                   | None \<Rightarrow> Inr result)))
      else if functionCode = 0x83 then
        (let errorCode = unat (buffer ! 2) in
         Inr (set_prop ''error''
           (JObj [(''code'', num errorCode),
                  (''description'',
                     JStr (''Modbus Error: '' @ lookup_or errorDescriptions errorCode ''Unknown error'')),
                  (''modbus_error'', JBool True)])
           result))
      else Inr result)"

definition decodeModbusMessage :: "string \<Rightarrow> input \<Rightarrow> exn + jsobj" where
  "decodeModbusMessage now inp =
     (case inputToBuffer inp of
        Inl e \<Rightarrow> Inl e
      | Inr buffer \<Rightarrow>
          if length buffer < 4 then Inl (Error ''Message too short'')
          else
            (case verifyCRC buffer of
               Inl e \<Rightarrow> Inl e
             | Inr ok \<Rightarrow>
                 if \<not> ok then Inl (Error ''CRC check failed'')
                 else dispatch now buffer))"

subsection \<open>The checksum in the words of the specification\<close>

text \<open>
  The Modbus CRC-16 on a 16-bit accumulator: start from \<open>0xFFFF\<close>; for each byte, XOR it into
  the low byte, then eight times shift right by one bit, with an XOR by \<open>0xA001\<close> when the bit
  shifted out was set. \<open>le_bytes16\<close> writes a 16-bit value as two bytes, the low one first.
\<close>

definition spec_shift :: "16 word \<Rightarrow> 16 word" where
  "spec_shift acc = (if bit acc 0 then drop_bit 1 acc XOR 0xA001 else drop_bit 1 acc)"

definition spec_crc_byte :: "16 word \<Rightarrow> byte \<Rightarrow> 16 word" where
  "spec_crc_byte acc b = (spec_shift ^^ 8) (acc XOR ucast b)"

definition spec_crc16 :: "buffer \<Rightarrow> 16 word" where
  "spec_crc16 bs = foldl spec_crc_byte 0xFFFF bs"

definition le_bytes16 :: "int \<Rightarrow> buffer" where
  "le_bytes16 v = [word_of_int (v mod 256), word_of_int (v div 256 mod 256)]"


subsection \<open>The failures and the frame in the words of the specification\<close>

text \<open>
  The decoder throws plain \<open>Error\<close> objects that differ in their message. The specification
  names them: \<open>InputFormatError\<close> for the two messages of \<open>inputToBuffer\<close>,
  \<open>FrameTooShortError\<close> for \<open>Message too short\<close> and \<open>ChecksumError\<close> for
  \<open>CRC check failed\<close>. A fully-formed frame has the six properties that every result starts
  with, each of its type, followed by nothing or by the object \<open>error\<close>.
\<close>

definition InputFormatError :: "exn \<Rightarrow> bool" where
  "InputFormatError e =
     (e = Error ''Invalid hex string length'' \<or>
      e = Error ''Unsupported input type. Expected Buffer, hex string or number array.'')"

definition FrameTooShortError :: "exn \<Rightarrow> bool" where
  "FrameTooShortError e = (e = Error ''Message too short'')"

definition ChecksumError :: "exn \<Rightarrow> bool" where
  "ChecksumError e = (e = Error ''CRC check failed'')"

datatype kind = KNum | KStr | KBool | KObj

fun kind_of :: "jsval \<Rightarrow> kind" where
  "kind_of (JNum _) = KNum"
| "kind_of (JStr _) = KStr"
| "kind_of (JBool _) = KBool"
| "kind_of (JObj _) = KObj"

definition frame_keys :: "string list" where
  "frame_keys =
     [''slave_address'', ''function_code'', ''function_name'', ''raw_data'', ''timestamp'',
      ''registers'']"

definition fully_formed :: "jsobj \<Rightarrow> bool" where
  "fully_formed res =
     (keys (take 6 res) = frame_keys \<and>
      map (\<lambda>p. kind_of (snd p)) (take 6 res) = [KNum, KNum, KStr, KStr, KStr, KObj] \<and>
      (drop 6 res = [] \<or>
       (keys (drop 6 res) = [''error''] \<and> map (\<lambda>p. kind_of (snd p)) (drop 6 res) = [KObj])))"


text \<open>The texts of the exception codes, as the specification lists them.\<close>

definition exception_text :: "nat \<Rightarrow> string" where
  "exception_text c =
     (if c = 1 then ''Illegal Function''
      else if c = 2 then ''Illegal Data Address''
      else if c = 3 then ''Illegal Data Value''
      else if c = 4 then ''Server Device Failure''
      else ''Unknown error'')"


text \<open>
  The 16-bit big-endian value at an offset of a frame, and rounding to three decimal places,
  as the specification words them.
\<close>

definition be16 :: "buffer \<Rightarrow> nat \<Rightarrow> nat" where
  "be16 b offset = unat (b ! offset) * 256 + unat (b ! (offset + 1))"



text \<open>
  The key and the entry that the loop over a function-3 frame stores for a register address:
  those of the descriptor when the table has the address, the \<open>unknown_0x\<close> ones when not.
\<close>

definition register_key :: "nat \<Rightarrow> string" where
  "register_key a =
     (case map_of MODBUS_REGISTERS a of Some register \<Rightarrow> name register | None \<Rightarrow> unknown_key a)"

definition register_entry :: "nat \<Rightarrow> nat \<Rightarrow> jsval" where
  "register_entry a v =
     (case map_of MODBUS_REGISTERS a of
        Some register \<Rightarrow> known_entry register v
      | None \<Rightarrow> unknown_entry a v)"


section \<open>The checksum\<close>

subsection \<open>The 32-bit loop computes the 16-bit checksum\<close>

lemma ucast_xor_byte: "(ucast (c :: 16 word) :: int32) XOR ucast (b :: byte) = ucast (c XOR ucast b)"
  by (rule bit_word_eqI) (auto simp add: bit_simps dest: bit_imp_le_length)

lemma ucast_signed_drop_bit: "signed_drop_bit 1 (ucast (c :: 16 word) :: int32) = ucast (drop_bit 1 c)"
  by (rule bit_word_eqI) (auto simp add: bit_simps dest: bit_imp_le_length)

lemma ucast_and_1: "((ucast (c :: 16 word) :: int32) AND 1 \<noteq> 0) = bit c 0"
proof -
  have "((ucast c :: int32) AND 1 \<noteq> 0) = bit (ucast c :: int32) 0"
    by (simp add: and_one_eq bit_0 mod_2_eq_odd)
  also have "\<dots> = bit c 0"
    by (simp add: bit_simps)
  finally show ?thesis .
qed

lemma ucast_xor_poly: "(ucast (c :: 16 word) :: int32) XOR 0xA001 = ucast (c XOR 0xA001)"
proof -
  have "(0xA001 :: int32) = ucast (0xA001 :: 16 word)" by simp
  then show ?thesis
    by (simp only: unsigned_xor_eq)
qed

lemma sint_ucast16: "sint (ucast (c :: 16 word) :: int32) = uint c"
proof -
  have b: "0 \<le> uint c" "uint c < 2 ^ 16" using uint_lt2p [of c] by simp_all
  then have b32: "uint c < 2 ^ 32" by simp
  have u: "uint (ucast c :: int32) = uint c"
    using b(1) b32 by (simp add: unsigned_ucast_eq take_bit_int_eq_self)
  from b have "uint c < 2 ^ 31" by simp
  moreover have "- (2 ^ 31) \<le> uint c" using b(1) by (simp add: order_trans [of _ 0])
  ultimately show ?thesis
    by (simp add: sint_uint u signed_take_bit_int_eq_self)
qed

lemma crc_shift_ucast: "crc_shift (ucast c) = ucast (spec_shift c)"
  unfolding crc_shift_def spec_shift_def
  by (simp only: ucast_and_1 ucast_signed_drop_bit ucast_xor_poly if_distrib [of ucast])

lemma crc_bits_funpow: "crc_bits j crc = (crc_shift ^^ (8 - j)) crc"
proof (induction j crc rule: crc_bits.induct)
  case (1 j crc)
  show ?case
  proof (cases "j < 8")
    case True
    then have "8 - j = Suc (8 - (j + 1))" by simp
    with True "1" show ?thesis
      by (subst crc_bits.simps) (simp add: funpow_swap1)
  next
    case False
    then show ?thesis by (subst crc_bits.simps) simp
  qed
qed

lemma crc_shift_funpow_ucast: "(crc_shift ^^ n) (ucast c) = ucast ((spec_shift ^^ n) c)"
  by (induction n) (simp_all add: crc_shift_ucast)

lemma crc_bytes_foldl:
  "crc_bytes data i (ucast c) = ucast (foldl spec_crc_byte c (drop i data))"
proof (induction data i "ucast c :: int32" arbitrary: c rule: crc_bytes.induct)
  case (1 data i)
  show ?case
  proof (cases "i < length data")
    case True
    have step: "crc_bits 0 (ucast c XOR ucast (data ! i)) = ucast (spec_crc_byte c (data ! i))"
      by (simp add: crc_bits_funpow ucast_xor_byte crc_shift_funpow_ucast spec_crc_byte_def)
    have "crc_bytes data i (ucast c) = crc_bytes data (i + 1) (ucast (spec_crc_byte c (data ! i)))"
      using True by (subst crc_bytes.simps) (simp add: step)
    also have "\<dots> = ucast (foldl spec_crc_byte (spec_crc_byte c (data ! i)) (drop (i + 1) data))"
      using "1" [OF True step] .
    also have "\<dots> = ucast (foldl spec_crc_byte c (drop i data))"
      using True by (simp flip: Cons_nth_drop_Suc)
    finally show ?thesis .
  next
    case False
    then show ?thesis by (subst crc_bytes.simps) simp
  qed
qed

lemma calculateCRC16_spec: "calculateCRC16 data = uint (spec_crc16 data)"
proof -
  have "(0xFFFF :: int32) = ucast (0xFFFF :: 16 word)" by simp
  then have "crc_bytes data 0 0xFFFF = ucast (spec_crc16 data)"
    using crc_bytes_foldl [of data 0 "0xFFFF"] by (simp add: spec_crc16_def)
  then show ?thesis
    by (simp add: calculateCRC16_def sint_ucast16)
qed

lemma calculateCRC16_range: "0 \<le> calculateCRC16 data \<and> calculateCRC16 data < 65536"
  using uint_lt2p [of "spec_crc16 data"] by (simp add: calculateCRC16_spec)

text \<open>Rules that let the simplifier run \<open>verifyCRC\<close> on a frame given byte by byte.\<close>

lemma funpow8: "(f ^^ 8) x = f (f (f (f (f (f (f (f x)))))))"
  by (simp add: eval_nat_numeral)

lemmas crc_eval =
  verifyCRC_def slice_0_minus2_def readUInt16LE_def calculateCRC16_spec spec_crc16_def
  spec_crc_byte_def spec_shift_def funpow8 Let_def

subsection \<open>Verification\<close>

text \<open>
  Claim C1. \<open>calculateCRC16\<close> computes the Modbus CRC-16 as the specification words it
  (\<open>spec_crc16\<close>: accumulator \<open>0xFFFF\<close>, each byte XORed into the low byte, then eight shifts
  to the right with an XOR by \<open>0xA001\<close> when the low bit was set). \<open>verifyCRC\<close> never throws;
  it answers true exactly when the frame has two bytes or more and its last two bytes, read as
  a 16-bit little-endian integer, equal the checksum of all the bytes before them. So it
  answers false for every frame of fewer than two bytes.
\<close>

theorem verifyCRC_spec:
  "calculateCRC16 body = uint (spec_crc16 body) \<and>
   verifyCRC frame =
     Inr (2 \<le> length frame \<and>
          uint (last (butlast frame)) + 256 * uint (last frame)
            = uint (spec_crc16 (butlast (butlast frame))))"
proof (cases "length frame < 2")
  case True
  then show ?thesis by (simp add: verifyCRC_def calculateCRC16_spec)
next
  case False
  then have "frame = butlast (butlast frame) @ [last (butlast frame), last frame]"
    by (cases frame rule: rev_cases; cases "butlast frame" rule: rev_cases)
      (auto simp add: butlast_append)
  then obtain body lo hi where f: "frame = body @ [lo, hi]"
    by blast
  show ?thesis
    by (simp add: f verifyCRC_def readUInt16LE_def slice_0_minus2_def calculateCRC16_spec
        nth_append butlast_append mult.commute [of "uint hi"])
qed

text \<open>
  Claim C2. For every byte sequence \<open>b\<close>, the frame made of \<open>b\<close> followed by the two
  little-endian bytes of \<open>calculateCRC16 b\<close> passes \<open>verifyCRC\<close>.
\<close>

theorem crc_roundtrip: "verifyCRC (b @ le_bytes16 (calculateCRC16 b)) = Inr True"
proof -
  let ?c = "calculateCRC16 b"
  have r: "0 \<le> ?c" "?c < 65536" using calculateCRC16_range [of b] by simp_all
  have lo: "unat (word_of_int (?c mod 256) :: byte) = nat (?c mod 256)"
    by (simp add: unat_eq_nat_uint uint_word_of_int take_bit_eq_mod)
  have "?c div 256 < 256" using r by simp
  then have hi: "unat (word_of_int (?c div 256 mod 256) :: byte) = nat (?c div 256)"
    using r by (simp add: unat_eq_nat_uint uint_word_of_int take_bit_eq_mod)
  have "0 \<le> ?c div 256" using r by (simp add: pos_imp_zdiv_nonneg_iff)
  then have "int (nat (?c mod 256) + nat (?c div 256) * 256) = ?c"
    by simp
  then show ?thesis
    by (simp add: verifyCRC_def le_bytes16_def readUInt16LE_def slice_0_minus2_def nth_append lo hi)
qed

section \<open>The decode call\<close>

subsection \<open>Auxiliary facts\<close>

lemma verifyCRC_never_throws: "verifyCRC data \<noteq> Inl e"
  by (auto simp add: verifyCRC_def readUInt16LE_def Let_def)

lemma verifyCRC_cases: "verifyCRC data = Inr True \<or> verifyCRC data = Inr False"
  by (auto simp add: verifyCRC_def readUInt16LE_def Let_def)

lemma decode_unfold:
  "decodeModbusMessage now inp =
     (case inputToBuffer inp of
        Inl e \<Rightarrow> Inl e
      | Inr b \<Rightarrow>
          if length b < 4 then Inl (Error ''Message too short'')
          else if verifyCRC b = Inr True then dispatch now b
          else Inl (Error ''CRC check failed''))"
  using verifyCRC_never_throws
  by (auto simp add: decodeModbusMessage_def split: sum.splits)

lemma half_less: "(of_nat i < (of_nat bc / 2 :: rat)) = (2 * i < bc)"
proof -
  have "(of_nat i < (of_nat bc / 2 :: rat)) = ((of_nat (2 * i) :: rat) < of_nat bc)"
    by (simp add: field_simps)
  then show ?thesis by (simp only: of_nat_less_iff)
qed

lemma read_registers_step:
  "read_registers b (of_nat bc / 2) i regs =
     (if 2 * i < bc then
        (case readUInt16BE b (3 + i * 2) of
           Inl e \<Rightarrow> Inl e
         | Inr v \<Rightarrow> read_registers b (of_nat bc / 2) (i + 1) (store_register (1 + i) v regs))
      else Inr regs)"
  by (subst read_registers.simps) (simp only: half_less Let_def)

lemma readUInt16BE_cases:
  "readUInt16BE b off =
     (if off + 2 \<le> length b then Inr (unat (b ! off) * 256 + unat (b ! (off + 1)))
      else Inl RangeError)"
  by (simp add: readUInt16BE_def)

lemma read_registers_RangeError:
  "read_registers b rc i regs = Inl e \<Longrightarrow> e = RangeError"
proof (induction b rc i regs rule: read_registers.induct)
  case (1 b rc i regs)
  show ?case
  proof (cases "of_nat i < rc")
    case False
    with "1.prems" show ?thesis
      by (subst (asm) read_registers.simps) simp
  next
    case True
    show ?thesis
    proof (cases "readUInt16BE b (3 + i * 2)")
      case (Inl e')
      then have "e' = RangeError" by (simp add: readUInt16BE_def split: if_splits)
      with Inl True "1.prems" show ?thesis
        by (subst (asm) read_registers.simps) simp
    next
      case (Inr v)
      have "read_registers b rc (i + 1) (store_register (1 + i) v regs) = Inl e"
        using "1.prems" True Inr
        by (subst (asm) read_registers.simps) (simp only: if_True sum.case Let_def)
      then show ?thesis
        by (rule "1.IH" [OF True Inr refl])
    qed
  qed
qed

lemma read_registers_ok:
  "(\<exists>regs'. read_registers b (of_nat bc / 2) i regs = Inr regs')
     = (\<forall>j\<ge>i. 2 * j < bc \<longrightarrow> 5 + 2 * j \<le> length b)"
proof (induction b "of_nat bc / 2 :: rat" i regs rule: read_registers.induct)
  case (1 b i regs)
  show ?case
  proof (cases "2 * i < bc")
    case False
    then have "\<forall>j\<ge>i. \<not> 2 * j < bc" by auto
    with False show ?thesis
      by (simp add: read_registers_step [of b bc i])
  next
    case True
    then have lt: "of_nat i < (of_nat bc / 2 :: rat)" by (simp only: half_less)
    show ?thesis
    proof (cases "5 + 2 * i \<le> length b")
      case False
      then have "readUInt16BE b (3 + i * 2) = Inl RangeError" by (simp add: readUInt16BE_def)
      with True have "read_registers b (of_nat bc / 2) i regs = Inl RangeError"
        by (simp add: read_registers_step [of b bc i])
      with False True show ?thesis by auto
    next
      case le: True
      then obtain v where v: "readUInt16BE b (3 + i * 2) = Inr v" by (simp add: readUInt16BE_def)
      have split: "(\<forall>j\<ge>i. 2 * j < bc \<longrightarrow> 5 + 2 * j \<le> length b)
          = (\<forall>j\<ge>i + 1. 2 * j < bc \<longrightarrow> 5 + 2 * j \<le> length b)"
      proof
        assume "\<forall>j\<ge>i. 2 * j < bc \<longrightarrow> 5 + 2 * j \<le> length b"
        then show "\<forall>j\<ge>i + 1. 2 * j < bc \<longrightarrow> 5 + 2 * j \<le> length b" by simp
      next
        assume a: "\<forall>j\<ge>i + 1. 2 * j < bc \<longrightarrow> 5 + 2 * j \<le> length b"
        show "\<forall>j\<ge>i. 2 * j < bc \<longrightarrow> 5 + 2 * j \<le> length b"
        proof (intro allI impI)
          fix j assume "i \<le> j" "2 * j < bc"
          then show "5 + 2 * j \<le> length b"
            using a le by (cases "j = i") auto
        qed
      qed
      have "read_registers b (of_nat bc / 2) i regs
          = read_registers b (of_nat bc / 2) (i + 1) (store_register (1 + i) v regs)"
        using True v by (simp only: read_registers_step [of b bc i] if_True sum.case)
      then show ?thesis
        unfolding split using "1.hyps" [OF lt v refl] by simp
    qed
  qed
qed

lemma map_of_set_prop: "map_of (set_prop k v obj) k' = (if k' = k then Some v else map_of obj k')"
  by (induction obj) auto

lemma keys_set_prop:
  "keys (set_prop k v obj) = (if k \<in> set (keys obj) then keys obj else keys obj @ [k])"
  by (induction obj) (auto simp add: keys_def)

lemma dispatch_RangeError: "dispatch now b = Inl e \<Longrightarrow> e = RangeError"
  by (auto simp add: dispatch_def Let_def readUInt16BE_def
      split: if_splits sum.splits option.splits dest: read_registers_RangeError)

lemma dispatch_shape:
  assumes "dispatch now b = Inr res"
  shows "\<exists>regs rest. res =
      [(''slave_address'', num (unat (b ! 0))),
       (''function_code'', num (unat (b ! 1))),
       (''function_name'', JStr (getFunctionName (unat (b ! 1)))),
       (''raw_data'', JStr (toUpperCase (toString_hex b))),
       (''timestamp'', JStr now),
       (''registers'', JObj regs)] @ rest
     \<and> (if unat (b ! 1) = 0x83 then \<exists>err. rest = [(''error'', JObj err)] else rest = [])"
  using assms
  by (auto simp add: dispatch_def initial_result_def Let_def
      split: if_splits sum.splits option.splits)

lemma fully_formed_dispatch: "dispatch now b = Inr res \<Longrightarrow> fully_formed res"
  by (drule dispatch_shape) (auto simp add: fully_formed_def keys_def frame_keys_def num_def split: if_splits)

lemma range_arith:
  "(\<forall>j\<ge>(0::nat). 2 * j < bc \<longrightarrow> 5 + 2 * j \<le> n) = (\<not> (bc \<noteq> 0 \<and> n < 3 + 2 * ((bc + 1) div 2)))"
proof (cases "bc = 0")
  case True
  then show ?thesis by simp
next
  case False
  show ?thesis
  proof
    assume a: "\<forall>j\<ge>0. 2 * j < bc \<longrightarrow> 5 + 2 * j \<le> n"
    have "2 * ((bc - 1) div 2) < bc" using False by presburger
    with a have "5 + 2 * ((bc - 1) div 2) \<le> n" by blast
    moreover have "5 + 2 * ((bc - 1) div 2) = 3 + 2 * ((bc + 1) div 2)" using False by presburger
    ultimately show "\<not> (bc \<noteq> 0 \<and> n < 3 + 2 * ((bc + 1) div 2))" by simp
  next
    assume "\<not> (bc \<noteq> 0 \<and> n < 3 + 2 * ((bc + 1) div 2))"
    then have n: "3 + 2 * ((bc + 1) div 2) \<le> n" using False by simp
    show "\<forall>j\<ge>0. 2 * j < bc \<longrightarrow> 5 + 2 * j \<le> n"
    proof (intro allI impI)
      fix j :: nat assume "2 * j < bc"
      then have "5 + 2 * j \<le> 3 + 2 * ((bc + 1) div 2)" by presburger
      with n show "5 + 2 * j \<le> n" by simp
    qed
  qed
qed

text \<open>
  Claim C4, amended. For every input that passes normalisation, has four bytes or more and
  passes the checksum, the decode call ends in a fully-formed frame or in a \<open>RangeError\<close>. It
  throws exactly for a function-3 frame whose byte count is not zero and asks for a 16-bit read
  beyond the end of the frame (\<open>length < 3 + 2 * \<lceil>byteCount / 2\<rceil>\<close>), and for a function-6 frame
  of fewer than six bytes; for every other function code and payload it returns a frame.
\<close>

theorem decode_after_checks:
  assumes "inputToBuffer inp = Inr b" and "4 \<le> length b" and "verifyCRC b = Inr True"
  shows "if (unat (b ! 1) = 0x03 \<and> unat (b ! 2) \<noteq> 0
              \<and> length b < 3 + 2 * ((unat (b ! 2) + 1) div 2))
            \<or> (unat (b ! 1) = 0x06 \<and> length b < 6)
         then decodeModbusMessage now inp = Inl RangeError
         else (\<exists>res. decodeModbusMessage now inp = Inr res \<and> fully_formed res)"
proof -
  have d: "decodeModbusMessage now inp = dispatch now b"
    using assms by (simp add: decode_unfold)
  let ?bc = "unat (b ! 2)"
  have total: "(\<exists>res. dispatch now b = Inr res) \<or> dispatch now b = Inl RangeError"
    by (cases "dispatch now b") (auto dest: dispatch_RangeError)
  have ff: "\<And>res. dispatch now b = Inr res \<Longrightarrow> fully_formed res"
    by (rule fully_formed_dispatch)
  consider (three) "unat (b ! 1) = 0x03" | (six) "unat (b ! 1) = 0x06"
    | (other) "unat (b ! 1) \<noteq> 0x03" "unat (b ! 1) \<noteq> 0x06" by blast
  then have "(\<exists>res. dispatch now b = Inr res) =
      (\<not> ((unat (b ! 1) = 0x03 \<and> ?bc \<noteq> 0 \<and> length b < 3 + 2 * ((?bc + 1) div 2))
          \<or> (unat (b ! 1) = 0x06 \<and> length b < 6)))"
  proof cases
    case three
    have "(\<exists>res. dispatch now b = Inr res)
        = (\<exists>regs. read_registers b (of_nat ?bc / 2) 0 [] = Inr regs)"
      using three by (auto simp add: dispatch_def Let_def split: sum.splits)
    also have "\<dots> = (\<not> (?bc \<noteq> 0 \<and> length b < 3 + 2 * ((?bc + 1) div 2)))"
      by (simp only: read_registers_ok range_arith)
    finally show ?thesis using three by simp
  next
    case six
    then show ?thesis
      by (auto simp add: dispatch_def Let_def readUInt16BE_def split: sum.splits option.splits)
  next
    case other
    then show ?thesis
      by (auto simp add: dispatch_def Let_def)
  qed
  with total ff show ?thesis
    unfolding d by auto
qed

lemma read_registers_if:
  "read_registers b rc i regs =
     (if of_nat i < rc then
        (if 3 + i * 2 + 2 \<le> length b then
           read_registers b rc (i + 1)
             (store_register (1 + i)
                (unat (b ! (3 + i * 2)) * 256 + unat (b ! (3 + i * 2 + 1))) regs)
         else Inl RangeError)
      else Inr regs)"
  by (subst read_registers.simps) (simp add: readUInt16BE_def Let_def)

lemma decode_checked:
  "verifyCRC b = Inr True \<Longrightarrow> 4 \<le> length b \<Longrightarrow>
   decodeModbusMessage now (InBuffer b) = dispatch now b"
  by (simp add: decode_unfold inputToBuffer_def)

text \<open>
  Claim C4, as stated, fails: a frame that passes normalisation, the length check and the
  checksum can still make the decoder throw. A function-3 frame of five bytes that declares
  four data bytes, and a function-6 frame of five bytes, both with a right checksum, end in a
  \<open>RangeError\<close> of \<open>readUInt16BE\<close>.
\<close>

theorem truncated_read_counterexample:
  "inputToBuffer (InBuffer [0x01, 0x03, 0x04, 0x21, 0x33]) = Inr [0x01, 0x03, 0x04, 0x21, 0x33] \<and>
   4 \<le> length [0x01, 0x03, 0x04, 0x21, 0x33 :: byte] \<and>
   verifyCRC [0x01, 0x03, 0x04, 0x21, 0x33] = Inr True \<and>
   decodeModbusMessage ''T'' (InBuffer [0x01, 0x03, 0x04, 0x21, 0x33]) = Inl RangeError \<and>
   inputToBuffer (InBuffer [0x01, 0x06, 0x00, 0x23, 0xa0]) = Inr [0x01, 0x06, 0x00, 0x23, 0xa0] \<and>
   4 \<le> length [0x01, 0x06, 0x00, 0x23, 0xa0 :: byte] \<and>
   verifyCRC [0x01, 0x06, 0x00, 0x23, 0xa0] = Inr True \<and>
   decodeModbusMessage ''T'' (InBuffer [0x01, 0x06, 0x00, 0x23, 0xa0]) = Inl RangeError"
proof -
  have c3: "verifyCRC [0x01, 0x03, 0x04, 0x21, 0x33] = Inr True"
    by (simp add: crc_eval)
  have "dispatch ''T'' [0x01, 0x03, 0x04, 0x21, 0x33] = Inl RangeError"
    by (simp add: dispatch_def read_registers_if)
  with c3 have d3: "decodeModbusMessage ''T'' (InBuffer [0x01, 0x03, 0x04, 0x21, 0x33]) = Inl RangeError"
    by (simp add: decode_checked)
  have c6: "verifyCRC [0x01, 0x06, 0x00, 0x23, 0xa0] = Inr True"
    by (simp add: crc_eval)
  have "dispatch ''T'' [0x01, 0x06, 0x00, 0x23, 0xa0] = Inl RangeError"
    by (simp add: dispatch_def readUInt16BE_def)
  with c6 have d6: "decodeModbusMessage ''T'' (InBuffer [0x01, 0x06, 0x00, 0x23, 0xa0]) = Inl RangeError"
    by (simp add: decode_checked)
  from c3 d3 c6 d6 show ?thesis
    by (simp add: inputToBuffer_def)
qed

text \<open>The theorem at the exception frame of the README, which decodes.\<close>

theorem decode_after_checks_witness:
  "inputToBuffer (InString ''3f8302a13d'') = Inr [0x3f, 0x83, 0x02, 0xa1, 0x3d] \<and>
   4 \<le> length [0x3f, 0x83, 0x02, 0xa1, 0x3d :: byte] \<and>
   verifyCRC [0x3f, 0x83, 0x02, 0xa1, 0x3d] = Inr True \<and>
   (\<exists>res. decodeModbusMessage ''T'' (InString ''3f8302a13d'') = Inr res \<and> fully_formed res)"
proof -
  have h1: "inputToBuffer (InString ''3f8302a13d'') = Inr [0x3f, 0x83, 0x02, 0xa1, 0x3d]"
    by (simp add: inputToBuffer_def isWhitespace_def unhex_def Let_def)
  have h2: "4 \<le> length [0x3f, 0x83, 0x02, 0xa1, 0x3d :: byte]"
    by simp
  have h3: "verifyCRC [0x3f, 0x83, 0x02, 0xa1, 0x3d] = Inr True"
    by (simp add: crc_eval)
  from decode_after_checks [OF h1 h2 h3, of "''T''"] h1 h2 h3 show ?thesis
    by simp
qed

subsection \<open>The failures of a decode call\<close>

text \<open>
  Claim C3, amended. Each of the three failures that the specification names is thrown
  exactly in its case: \<open>InputFormatError\<close> for an unsupported payload or a string with an odd
  number of characters after the white space is taken out, whatever its bytes are (the
  checksum is not looked at); \<open>FrameTooShortError\<close> for a normalised frame of fewer than four
  bytes; \<open>ChecksumError\<close> for a frame of four bytes or more that \<open>verifyCRC\<close> rejects. A
  failure is no frame (the left injection). These are not all the failures: the only other one
  is the \<open>RangeError\<close> of a read beyond the end of a frame that passed the three checks.
\<close>

theorem decode_failures:
  "((\<exists>e. decodeModbusMessage now inp = Inl e \<and> InputFormatError e)
      = (inp = InOther \<or> (\<exists>s. inp = InString s \<and> odd (length (filter (\<lambda>c. \<not> isWhitespace c) s))))) \<and>
   ((\<exists>e. decodeModbusMessage now inp = Inl e \<and> FrameTooShortError e)
      = (\<exists>b. inputToBuffer inp = Inr b \<and> length b < 4)) \<and>
   ((\<exists>e. decodeModbusMessage now inp = Inl e \<and> ChecksumError e)
      = (\<exists>b. inputToBuffer inp = Inr b \<and> 4 \<le> length b \<and> verifyCRC b = Inr False)) \<and>
   (\<forall>e. decodeModbusMessage now inp = Inl e \<longrightarrow>
      InputFormatError e \<or> FrameTooShortError e \<or> ChecksumError e \<or> e = RangeError) \<and>
   (decodeModbusMessage now inp = Inl RangeError \<longrightarrow>
      (\<exists>b. inputToBuffer inp = Inr b \<and> 4 \<le> length b \<and> verifyCRC b = Inr True))"
proof (cases "inputToBuffer inp")
  case (Inl e)
  then have d: "decodeModbusMessage now inp = Inl e" by (simp add: decode_unfold)
  from Inl have "InputFormatError e"
    by (auto simp add: inputToBuffer_def InputFormatError_def Let_def split: input.splits if_splits)
  moreover from Inl have "inp = InOther \<or> (\<exists>s. inp = InString s \<and> odd (length (filter (\<lambda>c. \<not> isWhitespace c) s)))"
    by (auto simp add: inputToBuffer_def Let_def split: input.splits if_splits)
  moreover from \<open>InputFormatError e\<close> have "\<not> FrameTooShortError e" "\<not> ChecksumError e" "e \<noteq> RangeError"
    by (auto simp add: InputFormatError_def FrameTooShortError_def ChecksumError_def)
  ultimately show ?thesis
    using Inl by (simp add: d)
next
  case (Inr b)
  then have notcase: "\<not> (inp = InOther \<or> (\<exists>s. inp = InString s \<and> odd (length (filter (\<lambda>c. \<not> isWhitespace c) s))))"
    by (auto simp add: inputToBuffer_def Let_def split: input.splits if_splits)
  consider (short) "length b < 4" | (crc) "4 \<le> length b" "verifyCRC b = Inr False"
    | (ok) "4 \<le> length b" "verifyCRC b = Inr True"
    using verifyCRC_cases [of b] by fastforce
  then show ?thesis
  proof cases
    case short
    then have d: "decodeModbusMessage now inp = Inl (Error ''Message too short'')"
      using Inr by (simp add: decode_unfold)
    show ?thesis
      unfolding d using Inr short notcase
      by (simp add: InputFormatError_def FrameTooShortError_def ChecksumError_def)
  next
    case crc
    then have d: "decodeModbusMessage now inp = Inl (Error ''CRC check failed'')"
      using Inr by (simp add: decode_unfold)
    show ?thesis
      unfolding d using Inr crc notcase
      by (simp add: InputFormatError_def FrameTooShortError_def ChecksumError_def)
  next
    case ok
    then have d: "decodeModbusMessage now inp = dispatch now b"
      using Inr by (simp add: decode_unfold)
    have r: "\<And>e. dispatch now b = Inl e \<Longrightarrow> e = RangeError"
      by (rule dispatch_RangeError)
    have "\<And>e. dispatch now b = Inl e \<Longrightarrow> \<not> InputFormatError e \<and> \<not> FrameTooShortError e \<and> \<not> ChecksumError e"
      by (drule r) (simp add: InputFormatError_def FrameTooShortError_def ChecksumError_def)
    then show ?thesis
      unfolding d using Inr ok notcase r by auto
  qed
qed

text \<open>
  The theorem at the odd-length string \<open>3f030\<close> of the specification and at a function-6 frame
  of four bytes.
\<close>

theorem decode_failures_witness:
  "decodeModbusMessage ''T'' (InString ''3f030'') = Inl (Error ''Invalid hex string length'') \<and>
   (InputFormatError (Error ''Invalid hex string length'') \<or>
    FrameTooShortError (Error ''Invalid hex string length'') \<or>
    ChecksumError (Error ''Invalid hex string length'') \<or>
    Error ''Invalid hex string length'' = RangeError) \<and>
   decodeModbusMessage ''T'' (InBuffer [0x01, 0x06, 0x80, 0x22]) = Inl RangeError \<and>
   (\<exists>b. inputToBuffer (InBuffer [0x01, 0x06, 0x80, 0x22]) = Inr b \<and> 4 \<le> length b \<and>
        verifyCRC b = Inr True)"
proof -
  have a: "decodeModbusMessage ''T'' (InString ''3f030'') = Inl (Error ''Invalid hex string length'')"
    by (simp add: decode_unfold inputToBuffer_def isWhitespace_def Let_def)
  have "verifyCRC [0x01, 0x06, 0x80, 0x22] = Inr True"
    by (simp add: crc_eval)
  moreover have "dispatch ''T'' [0x01, 0x06, 0x80, 0x22] = Inl RangeError"
    by (simp add: dispatch_def readUInt16BE_def)
  ultimately have b: "decodeModbusMessage ''T'' (InBuffer [0x01, 0x06, 0x80, 0x22]) = Inl RangeError"
    by (simp add: decode_checked)
  note t1 = decode_failures [of "''T''" "InString ''3f030''"]
  note t2 = decode_failures [of "''T''" "InBuffer [0x01, 0x06, 0x80, 0x22]"]
  from t1 a have c: "InputFormatError (Error ''Invalid hex string length'') \<or>
    FrameTooShortError (Error ''Invalid hex string length'') \<or>
    ChecksumError (Error ''Invalid hex string length'') \<or>
    Error ''Invalid hex string length'' = RangeError"
    by blast
  from t2 b have d: "\<exists>b. inputToBuffer (InBuffer [0x01, 0x06, 0x80, 0x22]) = Inr b \<and> 4 \<le> length b \<and>
        verifyCRC b = Inr True"
    by blast
  from a b c d show ?thesis by blast
qed

text \<open>
  Claim C3, as stated, fails: the decoder does not fail in three cases only. The buffer
  \<open>01 06 80 22\<close> is a supported payload of four bytes with a right checksum, and decoding it
  throws.
\<close>

theorem fourth_failure_counterexample:
  "decodeModbusMessage ''T'' (InBuffer [0x01, 0x06, 0x80, 0x22]) = Inl RangeError \<and>
   InBuffer [0x01, 0x06, 0x80, 0x22] \<noteq> InOther \<and>
   inputToBuffer (InBuffer [0x01, 0x06, 0x80, 0x22]) = Inr [0x01, 0x06, 0x80, 0x22] \<and>
   length [0x01, 0x06, 0x80, 0x22 :: byte] = 4 \<and>
   verifyCRC [0x01, 0x06, 0x80, 0x22] = Inr True"
proof -
  have c: "verifyCRC [0x01, 0x06, 0x80, 0x22] = Inr True"
    by (simp add: crc_eval)
  moreover have "dispatch ''T'' [0x01, 0x06, 0x80, 0x22] = Inl RangeError"
    by (simp add: dispatch_def readUInt16BE_def)
  ultimately have "decodeModbusMessage ''T'' (InBuffer [0x01, 0x06, 0x80, 0x22]) = Inl RangeError"
    by (simp add: decode_checked)
  with c show ?thesis
    by (simp add: inputToBuffer_def)
qed

subsection \<open>The exception frame of the README\<close>

lemma crc_exception_frame: "verifyCRC [0x3f, 0x83, 0x02, 0xa1, 0x3d] = Inr True"
  by (simp add: crc_eval)

lemma hex_exception_frame:
  "inputToBuffer (InString ''3f8302a13d'') = Inr [0x3f, 0x83, 0x02, 0xa1, 0x3d]"
  by (simp add: inputToBuffer_def isWhitespace_def unhex_def Let_def)

lemma array_exception_frame:
  "inputToBuffer (InArray [0x3f, 0x83, 0x02, 0xa1, 0x3d]) = Inr [0x3f, 0x83, 0x02, 0xa1, 0x3d]"
  by (simp add: inputToBuffer_def Buffer_from_array_def)

lemmas raw_data_eval = toUpperCase_def toString_hex_def toUpperCase_char_def digit_char_def

lemma raw_data_exception_frame:
  "toUpperCase (toString_hex [0x3f, 0x83, 0x02, 0xa1, 0x3d]) = ''3F8302A13D''"
  by (simp add: raw_data_eval)

lemma dispatch_exception_frame:
  "dispatch now [0x3f, 0x83, 0x02, 0xa1, 0x3d] =
     Inr [(''slave_address'', JNum 63),
          (''function_code'', JNum 131),
          (''function_name'', JStr ''Error Response''),
          (''raw_data'', JStr ''3F8302A13D''),
          (''timestamp'', JStr now),
          (''registers'', JObj []),
          (''error'', JObj [(''code'', JNum 2),
                           (''description'', JStr ''Modbus Error: Illegal Data Address''),
                           (''modbus_error'', JBool True)])]"
  by (simp add: dispatch_def initial_result_def Let_def raw_data_exception_frame
      getFunctionName_def lookup_or_def functionNames_def errorDescriptions_def num_def)

lemma decode_exception_string:
  "decodeModbusMessage now (InString ''3f8302a13d'') =
     Inr [(''slave_address'', JNum 63),
          (''function_code'', JNum 131),
          (''function_name'', JStr ''Error Response''),
          (''raw_data'', JStr ''3F8302A13D''),
          (''timestamp'', JStr now),
          (''registers'', JObj []),
          (''error'', JObj [(''code'', JNum 2),
                           (''description'', JStr ''Modbus Error: Illegal Data Address''),
                           (''modbus_error'', JBool True)])]"
  by (simp add: decode_unfold hex_exception_frame crc_exception_frame dispatch_exception_frame)

lemma decode_exception_array:
  "decodeModbusMessage now (InArray [0x3f, 0x83, 0x02, 0xa1, 0x3d]) =
     Inr [(''slave_address'', JNum 63),
          (''function_code'', JNum 131),
          (''function_name'', JStr ''Error Response''),
          (''raw_data'', JStr ''3F8302A13D''),
          (''timestamp'', JStr now),
          (''registers'', JObj []),
          (''error'', JObj [(''code'', JNum 2),
                           (''description'', JStr ''Modbus Error: Illegal Data Address''),
                           (''modbus_error'', JBool True)])]"
  by (simp add: decode_unfold array_exception_frame crc_exception_frame dispatch_exception_frame)

lemma lookup_errorDescriptions: "lookup_or errorDescriptions c ''Unknown error'' = exception_text c"
  by (simp add: lookup_or_def errorDescriptions_def exception_text_def)

subsection \<open>The timestamp\<close>

text \<open>
  Claim C9, as stated, fails: the result of the decode call itself has the property
  \<open>timestamp\<close>, here for the exception frame of the README decoded at the time
  \<open>2024-01-15T10:30:00.000Z\<close>.
\<close>

theorem timestamp_counterexample:
  "decodeModbusMessage ''2024-01-15T10:30:00.000Z'' (InString ''3f8302a13d'') =
     Inr [(''slave_address'', JNum 63),
          (''function_code'', JNum 131),
          (''function_name'', JStr ''Error Response''),
          (''raw_data'', JStr ''3F8302A13D''),
          (''timestamp'', JStr ''2024-01-15T10:30:00.000Z''),
          (''registers'', JObj []),
          (''error'', JObj [(''code'', JNum 2),
                           (''description'', JStr ''Modbus Error: Illegal Data Address''),
                           (''modbus_error'', JBool True)])]"
  by (rule decode_exception_string)

text \<open>
  Claim C9, amended. The decoder reads the clock itself: every result of a successful decode
  call carries the property \<open>timestamp\<close> with the time of the call, and its properties are
  \<open>slave_address\<close>, \<open>function_code\<close>, \<open>function_name\<close>, \<open>raw_data\<close>, \<open>timestamp\<close> and
  \<open>registers\<close>, in this order, followed by \<open>error\<close> or by nothing.
\<close>

theorem decoder_attaches_timestamp:
  assumes "decodeModbusMessage now inp = Inr res"
  shows "get_prop res ''timestamp'' = Some (JStr now) \<and>
         (keys res = frame_keys \<or> keys res = frame_keys @ [''error''])"
proof -
  from assms obtain b where "dispatch now b = Inr res"
    by (auto simp add: decode_unfold split: sum.splits if_splits)
  from dispatch_shape [OF this] show ?thesis
    by (auto simp add: get_prop_def keys_def frame_keys_def split: if_splits)
qed

text \<open>The theorem at the exception frame given as an array.\<close>

theorem decoder_attaches_timestamp_witness:
  "decodeModbusMessage ''2024-01-15T10:30:00.000Z'' (InArray [0x3f, 0x83, 0x02, 0xa1, 0x3d]) =
     Inr [(''slave_address'', JNum 63),
          (''function_code'', JNum 131),
          (''function_name'', JStr ''Error Response''),
          (''raw_data'', JStr ''3F8302A13D''),
          (''timestamp'', JStr ''2024-01-15T10:30:00.000Z''),
          (''registers'', JObj []),
          (''error'', JObj [(''code'', JNum 2),
                           (''description'', JStr ''Modbus Error: Illegal Data Address''),
                           (''modbus_error'', JBool True)])] \<and>
   get_prop [(''slave_address'', JNum 63),
          (''function_code'', JNum 131),
          (''function_name'', JStr ''Error Response''),
          (''raw_data'', JStr ''3F8302A13D''),
          (''timestamp'', JStr ''2024-01-15T10:30:00.000Z''),
          (''registers'', JObj []),
          (''error'', JObj [(''code'', JNum 2),
                           (''description'', JStr ''Modbus Error: Illegal Data Address''),
                           (''modbus_error'', JBool True)])] ''timestamp''
     = Some (JStr ''2024-01-15T10:30:00.000Z'')"
  using decoder_attaches_timestamp [OF decode_exception_array [of "''2024-01-15T10:30:00.000Z''"]]
    decode_exception_array [of "''2024-01-15T10:30:00.000Z''"]
  by blast

subsection \<open>Function code 0x83\<close>

text \<open>
  Claim C8. For a frame with function code \<open>0x83\<close> that passes the checks, the result has the
  property \<open>error\<close> with \<open>code\<close> the third byte, \<open>description\<close> the text \<open>Modbus Error: \<close>
  followed by the text of the code (\<open>Unknown error\<close> for a code other than 1 to 4) and
  \<open>modbus_error\<close> true, and the object \<open>registers\<close> is empty. The string \<open>3f8302a13d\<close>
  decodes to function code 131, function name \<open>Error Response\<close>, error code 2 and the
  description \<open>Modbus Error: Illegal Data Address\<close>.
\<close>

theorem exception_response:
  "(inputToBuffer inp = Inr b \<and> 4 \<le> length b \<and> verifyCRC b = Inr True \<and> unat (b ! 1) = 0x83 \<longrightarrow>
      (\<exists>res. decodeModbusMessage now inp = Inr res \<and>
         get_prop res ''error'' =
           Some (JObj [(''code'', num (unat (b ! 2))),
                       (''description'', JStr (''Modbus Error: '' @ exception_text (unat (b ! 2)))),
                       (''modbus_error'', JBool True)]) \<and>
         get_prop res ''registers'' = Some (JObj []))) \<and>
   decodeModbusMessage now (InString ''3f8302a13d'') =
     Inr [(''slave_address'', JNum 63),
          (''function_code'', JNum 131),
          (''function_name'', JStr ''Error Response''),
          (''raw_data'', JStr ''3F8302A13D''),
          (''timestamp'', JStr now),
          (''registers'', JObj []),
          (''error'', JObj [(''code'', JNum 2),
                           (''description'', JStr ''Modbus Error: Illegal Data Address''),
                           (''modbus_error'', JBool True)])]"
proof (intro conjI impI)
  assume a: "inputToBuffer inp = Inr b \<and> 4 \<le> length b \<and> verifyCRC b = Inr True \<and> unat (b ! 1) = 0x83"
  then have d: "decodeModbusMessage now inp = dispatch now b"
    by (simp add: decode_unfold)
  from a show "\<exists>res. decodeModbusMessage now inp = Inr res \<and>
         get_prop res ''error'' =
           Some (JObj [(''code'', num (unat (b ! 2))),
                       (''description'', JStr (''Modbus Error: '' @ exception_text (unat (b ! 2)))),
                       (''modbus_error'', JBool True)]) \<and>
         get_prop res ''registers'' = Some (JObj [])"
    unfolding d
    by (simp add: dispatch_def initial_result_def get_prop_def lookup_errorDescriptions Let_def)
next
  show "decodeModbusMessage now (InString ''3f8302a13d'') =
     Inr [(''slave_address'', JNum 63),
          (''function_code'', JNum 131),
          (''function_name'', JStr ''Error Response''),
          (''raw_data'', JStr ''3F8302A13D''),
          (''timestamp'', JStr now),
          (''registers'', JObj []),
          (''error'', JObj [(''code'', JNum 2),
                           (''description'', JStr ''Modbus Error: Illegal Data Address''),
                           (''modbus_error'', JBool True)])]"
    by (rule decode_exception_string)
qed

text \<open>The theorem at a frame with the exception code 7.\<close>

theorem exception_response_witness:
  "inputToBuffer (InBuffer [0x01, 0x83, 0x07, 0x00, 0xf2]) = Inr [0x01, 0x83, 0x07, 0x00, 0xf2] \<and>
   verifyCRC [0x01, 0x83, 0x07, 0x00, 0xf2] = Inr True \<and>
   (\<exists>res. decodeModbusMessage ''T'' (InBuffer [0x01, 0x83, 0x07, 0x00, 0xf2]) = Inr res \<and>
      get_prop res ''error'' =
        Some (JObj [(''code'', JNum 7),
                    (''description'', JStr ''Modbus Error: Unknown error''),
                    (''modbus_error'', JBool True)]) \<and>
      get_prop res ''registers'' = Some (JObj []))"
proof -
  have i: "inputToBuffer (InBuffer [0x01, 0x83, 0x07, 0x00, 0xf2]) = Inr [0x01, 0x83, 0x07, 0x00, 0xf2]"
    by (simp add: inputToBuffer_def)
  have c: "verifyCRC [0x01, 0x83, 0x07, 0x00, 0xf2] = Inr True"
    by (simp add: crc_eval)
  from exception_response [of "InBuffer [0x01, 0x83, 0x07, 0x00, 0xf2]" "[0x01, 0x83, 0x07, 0x00, 0xf2]" "''T''"] i c
  show ?thesis
    by (simp add: exception_text_def num_def)
qed

section \<open>The normaliser on arrays\<close>

text \<open>
  Claim C10. An array of integers is never rejected: \<open>inputToBuffer\<close> returns a buffer of the
  same length whose byte at each index is the element modulo 256, also for elements outside
  0 to 255. So two arrays whose elements are congruent modulo 256 decode to the same result.
\<close>

theorem array_elements_mod_256:
  "inputToBuffer (InArray xs) = Inr (Buffer_from_array xs) \<and>
   length (Buffer_from_array xs) = length xs \<and>
   (\<forall>i<length xs. uint (Buffer_from_array xs ! i) = xs ! i mod 256) \<and>
   (list_all2 (\<lambda>x y. x mod 256 = y mod 256) xs ys \<longrightarrow>
      decodeModbusMessage now (InArray xs) = decodeModbusMessage now (InArray ys))"
proof (intro conjI impI allI)
  show "inputToBuffer (InArray xs) = Inr (Buffer_from_array xs)"
    by (simp add: inputToBuffer_def)
  show "length (Buffer_from_array xs) = length xs"
    by (simp add: Buffer_from_array_def)
  show "uint (Buffer_from_array xs ! i) = xs ! i mod 256" if "i < length xs" for i
    using that by (simp add: Buffer_from_array_def uint_word_of_int take_bit_eq_mod)
  assume "list_all2 (\<lambda>x y. x mod 256 = y mod 256) xs ys"
  then have "Buffer_from_array xs = Buffer_from_array ys"
    unfolding Buffer_from_array_def
  proof (induction rule: list_all2_induct)
    case Nil
    show ?case by simp
  next
    case (Cons x xs y ys)
    have "(word_of_int x :: byte) = word_of_int y"
      using Cons.hyps(1) by (simp add: word_of_int_eq_iff take_bit_eq_mod)
    with Cons.IH show ?case by simp
  qed
  then show "decodeModbusMessage now (InArray xs) = decodeModbusMessage now (InArray ys)"
    by (simp add: decodeModbusMessage_def inputToBuffer_def)
qed

text \<open>The theorem at the exception frame with its bytes shifted by multiples of 256.\<close>

theorem array_elements_mod_256_witness:
  "uint (Buffer_from_array [319, - 125, 2, 673, - 195] ! 1) = 131 \<and>
   decodeModbusMessage ''T'' (InArray [319, - 125, 2, 673, - 195]) =
     Inr [(''slave_address'', JNum 63),
          (''function_code'', JNum 131),
          (''function_name'', JStr ''Error Response''),
          (''raw_data'', JStr ''3F8302A13D''),
          (''timestamp'', JStr ''T''),
          (''registers'', JObj []),
          (''error'', JObj [(''code'', JNum 2),
                           (''description'', JStr ''Modbus Error: Illegal Data Address''),
                           (''modbus_error'', JBool True)])]"
proof -
  note t = array_elements_mod_256 [of "[319, - 125, 2, 673, - 195]" "[0x3f, 0x83, 0x02, 0xa1, 0x3d]" "''T''"]
  have h: "list_all2 (\<lambda>x y. x mod 256 = y mod 256) [319, - 125, 2, 673, - 195] [0x3f, 0x83, 0x02, 0xa1, 0x3d :: int]"
    by simp
  from t have "uint (Buffer_from_array [319, - 125, 2, 673, - 195] ! 1) = [319, - 125, 2, 673, - 195] ! 1 mod 256"
    by simp
  then have a: "uint (Buffer_from_array [319, - 125, 2, 673, - 195] ! 1) = 131"
    by simp
  from t h have "decodeModbusMessage ''T'' (InArray [319, - 125, 2, 673, - 195])
      = decodeModbusMessage ''T'' (InArray [0x3f, 0x83, 0x02, 0xa1, 0x3d])"
    by blast
  with a show ?thesis
    by (simp only: decode_exception_array simp_thms)
qed

section \<open>Function code 0x06\<close>




lemma reg_simps [simp]:
  "address (reg a n u d r s) = a" "name (reg a n u d r s) = n" "unit (reg a n u d r s) = u"
  "description (reg a n u d r s) = d" "readOnly (reg a n u d r s) = r" "scale (reg a n u d r s) = s"
  by (simp_all add: reg_def)


section \<open>decodeRegisterValue\<close>







section \<open>Function code 0x03\<close>

subsection \<open>A frame of six registers\<close>

lemmas registers_eval =
  read_registers_if store_register_def MODBUS_REGISTERS_def known_entry_def unknown_entry_def
  unknown_key_def obj_literal_def decodeRegisterValue_def decodeStatusRegister_def lookup_or_def
  ERROR_CODES_def toFixed3_def num_def padStart0_def

text \<open>
  Claim C6 at a well-formed frame of six registers. The entry of a register of the table is
  to carry the decoded value together with the unit, description, address and read-only flag
  of the descriptor. For the register \<open>error_code\<close> (address \<open>0x0006\<close>, raw value 8) the decoded
  value has the description \<open>Overheating\<close> of the error table, and the entry in the frame has
  the description \<open>Error code\<close> of the descriptor instead: in the object literal the property
  \<open>description\<close> of the descriptor comes after the spread of the decoded value and replaces
  it. The README shows the entry of \<open>error_code\<close> with the text of the error table.
\<close>

theorem error_description_overwritten:
  "decodeRegisterValue (reg 0x0006 ''error_code'' [] ''Error code'' True None) 8 =
     [(''code'', JNum 8), (''description'', JStr ''Overheating''), (''raw_value'', JNum 8)] \<and>
   decodeModbusMessage ''T''
     (InBuffer [0x01, 0x03, 0x0c, 0x01, 0xf4, 0x00, 0x32, 0x00, 0xea, 0x00, 0x20, 0x00, 0xfa,
                0x00, 0x08, 0xde, 0x1f]) =
     Inr [(''slave_address'', JNum 1),
          (''function_code'', JNum 3),
          (''function_name'', JStr ''Read Holding Registers''),
          (''raw_data'', JStr ''01030C01F4003200EA002000FA0008DE1F''),
          (''timestamp'', JStr ''T''),
          (''registers'', JObj
            [(''output_frequency'',
              JObj [(''value'', JNum 50), (''raw_value'', JNum 500), (''unit'', JStr ''0.1 Hz''),
                    (''description'', JStr ''Current output frequency value''),
                    (''address'', JNum 1), (''read_only'', JBool True)]),
             (''output_current'',
              JObj [(''value'', JNum 5), (''raw_value'', JNum 50), (''unit'', JStr ''0.1 A''),
                    (''description'', JStr ''Current output current value''),
                    (''address'', JNum 2), (''read_only'', JBool True)]),
             (''input_voltage'',
              JObj [(''value'', JNum 234), (''raw_value'', JNum 234), (''unit'', JStr ''V''),
                    (''description'', JStr ''Current input voltage value''),
                    (''address'', JNum 3), (''read_only'', JBool True)]),
             (''temperature'',
              JObj [(''value'', JNum 32), (''raw_value'', JNum 32),
                    (''unit'', JStr [CHR 0xB0, CHR ''C'']),
                    (''description'', JStr ''Current temperature display''),
                    (''address'', JNum 4), (''read_only'', JBool True)]),
             (''pressure'',
              JObj [(''value'', JNum (5 / 2)), (''raw_value'', JNum 250),
                    (''unit'', JStr ''0.01 bar''),
                    (''description'', JStr ''Actual pressure value''),
                    (''address'', JNum 5), (''read_only'', JBool True)]),
             (''error_code'',
              JObj [(''code'', JNum 8), (''description'', JStr ''Error code''),
                    (''raw_value'', JNum 8), (''unit'', JStr []),
                    (''address'', JNum 6), (''read_only'', JBool True)])])]"
proof -
  let ?b = "[0x01, 0x03, 0x0c, 0x01, 0xf4, 0x00, 0x32, 0x00, 0xea, 0x00, 0x20, 0x00, 0xfa,
             0x00, 0x08, 0xde, 0x1f] :: buffer"
  have v: "decodeRegisterValue (reg 0x0006 ''error_code'' [] ''Error code'' True None) 8 =
     [(''code'', JNum 8), (''description'', JStr ''Overheating''), (''raw_value'', JNum 8)]"
    by (simp add: decodeRegisterValue_def lookup_or_def ERROR_CODES_def num_def)
  have c: "verifyCRC ?b = Inr True"
    by (simp add: crc_eval)
  have h: "toUpperCase (toString_hex ?b) = ''01030C01F4003200EA002000FA0008DE1F''"
    by (simp add: raw_data_eval)
  have r: "read_registers ?b (of_nat (unat (?b ! 2)) / 2) 0 [] = Inr
            [(''output_frequency'',
              JObj [(''value'', JNum 50), (''raw_value'', JNum 500), (''unit'', JStr ''0.1 Hz''),
                    (''description'', JStr ''Current output frequency value''),
                    (''address'', JNum 1), (''read_only'', JBool True)]),
             (''output_current'',
              JObj [(''value'', JNum 5), (''raw_value'', JNum 50), (''unit'', JStr ''0.1 A''),
                    (''description'', JStr ''Current output current value''),
                    (''address'', JNum 2), (''read_only'', JBool True)]),
             (''input_voltage'',
              JObj [(''value'', JNum 234), (''raw_value'', JNum 234), (''unit'', JStr ''V''),
                    (''description'', JStr ''Current input voltage value''),
                    (''address'', JNum 3), (''read_only'', JBool True)]),
             (''temperature'',
              JObj [(''value'', JNum 32), (''raw_value'', JNum 32),
                    (''unit'', JStr [CHR 0xB0, CHR ''C'']),
                    (''description'', JStr ''Current temperature display''),
                    (''address'', JNum 4), (''read_only'', JBool True)]),
             (''pressure'',
              JObj [(''value'', JNum (5 / 2)), (''raw_value'', JNum 250),
                    (''unit'', JStr ''0.01 bar''),
                    (''description'', JStr ''Actual pressure value''),
                    (''address'', JNum 5), (''read_only'', JBool True)]),
             (''error_code'',
              JObj [(''code'', JNum 8), (''description'', JStr ''Error code''),
                    (''raw_value'', JNum 8), (''unit'', JStr []),
                    (''address'', JNum 6), (''read_only'', JBool True)])]"
    by (simp add: registers_eval)
  have d: "decodeModbusMessage ''T'' (InBuffer ?b) = dispatch ''T'' ?b"
    using c by (simp add: decode_checked)
  show ?thesis
    unfolding d
    using v r h
    by (simp add: dispatch_def initial_result_def Let_def getFunctionName_def lookup_or_def
        functionNames_def num_def)
qed

subsection \<open>What the loop over the registers stores\<close>

text \<open>
  The rest of claim C6 holds and is proved here: the keys of the entries are pairwise
  different, so that no entry replaces another, and the object \<open>registers\<close> has, for each
  \<open>i\<close> below \<open>byteCount / 2\<close>, in this order, the entry of the address \<open>1 + i\<close> with the
  big-endian value at offset \<open>3 + 2 * i\<close>.
\<close>

lemma store_register_key:
  "store_register a v regs = set_prop (register_key a) (register_entry a v) regs"
  by (simp add: store_register_def register_key_def register_entry_def split: option.splits)

lemma unhex_digit_char: "d < 16 \<Longrightarrow> unhex (digit_char d) = Some d"
proof -
  assume "d < 16"
  then have "d = 0 \<or> d = 1 \<or> d = 2 \<or> d = 3 \<or> d = 4 \<or> d = 5 \<or> d = 6 \<or> d = 7 \<or> d = 8
      \<or> d = 9 \<or> d = 10 \<or> d = 11 \<or> d = 12 \<or> d = 13 \<or> d = 14 \<or> d = 15"
    by presburger
  then show ?thesis
    by (auto simp add: digit_char_def unhex_def)
qed

lemma digit_char_inj: "d < 16 \<Longrightarrow> e < 16 \<Longrightarrow> digit_char d = digit_char e \<Longrightarrow> d = e"
  by (metis unhex_digit_char option.inject)

lemma unknown_key_small:
  assumes "a < 256"
  shows "unknown_key a = ''unknown_0x00'' @ [digit_char (a div 16), digit_char (a mod 16)]"
proof (cases "a < 16")
  case True
  then have "toString_radix 16 a = [digit_char a]"
    by (subst toString_radix.simps) simp
  moreover have "digit_char 0 = CHR ''0''"
    by (simp add: digit_char_def)
  moreover have "replicate 3 (CHR ''0'') = ''000''"
    by (simp add: numeral_3_eq_3)
  ultimately show ?thesis
    using True by (simp add: unknown_key_def padStart0_def)
next
  case False
  with assms have "a div 16 < 16" by simp
  then have "toString_radix 16 (a div 16) = [digit_char (a div 16)]"
    by (subst toString_radix.simps) simp
  with False have "toString_radix 16 a = [digit_char (a div 16), digit_char (a mod 16)]"
    by (subst toString_radix.simps) simp
  moreover have "replicate 2 (CHR ''0'') = ''00''"
    by (simp add: numeral_2_eq_2)
  ultimately show ?thesis
    by (simp add: unknown_key_def padStart0_def)
qed

lemma unknown_key_inj:
  assumes "a < 256" "a' < 256" "unknown_key a = unknown_key a'"
  shows "a = a'"
proof -
  from assms have e1: "digit_char (a div 16) = digit_char (a' div 16)"
    and e2: "digit_char (a mod 16) = digit_char (a' mod 16)"
    by (simp_all add: unknown_key_small)
  from assms have "a div 16 < 16" "a' div 16 < 16" by simp_all
  then have d: "a div 16 = a' div 16"
    using e1 by (rule digit_char_inj)
  have "a mod 16 < 16" "a' mod 16 < 16" by simp_all
  then have m: "a mod 16 = a' mod 16"
    using e2 by (rule digit_char_inj)
  from d m show ?thesis
    by (metis div_mult_mod_eq)
qed

lemma names_distinct: "distinct (map (\<lambda>p. name (snd p)) MODBUS_REGISTERS)"
  by (simp add: MODBUS_REGISTERS_def)

lemma names_not_unknown:
  "(a, r) \<in> set MODBUS_REGISTERS \<Longrightarrow> hd (name r) \<noteq> CHR ''u''"
  by (auto simp add: MODBUS_REGISTERS_def)

lemma hd_unknown_key: "hd (unknown_key a) = CHR ''u''"
  by (simp add: unknown_key_def)

lemma register_key_inj:
  assumes "a < 256" "a' < 256" "register_key a = register_key a'"
  shows "a = a'"
proof (cases "map_of MODBUS_REGISTERS a")
  case None
  show ?thesis
  proof (cases "map_of MODBUS_REGISTERS a'")
    case n: None
    with None assms show ?thesis
      by (simp add: register_key_def unknown_key_inj)
  next
    case (Some r')
    then have "(a', r') \<in> set MODBUS_REGISTERS" by (rule map_of_SomeD)
    then have "hd (name r') \<noteq> CHR ''u''" by (rule names_not_unknown)
    with None Some assms(3) show ?thesis
      by (simp add: register_key_def) (metis hd_unknown_key)
  qed
next
  case (Some r)
  then have m: "(a, r) \<in> set MODBUS_REGISTERS" by (rule map_of_SomeD)
  then have u: "hd (name r) \<noteq> CHR ''u''" by (rule names_not_unknown)
  show ?thesis
  proof (cases "map_of MODBUS_REGISTERS a'")
    case None
    with Some u assms(3) show ?thesis
      by (simp add: register_key_def) (metis hd_unknown_key)
  next
    case s: (Some r')
    then have m': "(a', r') \<in> set MODBUS_REGISTERS" by (rule map_of_SomeD)
    from Some s assms(3) have "name r = name r'" by (simp add: register_key_def)
    moreover have "inj_on (\<lambda>p. name (snd p)) (set MODBUS_REGISTERS)"
      using names_distinct by (simp add: distinct_map)
    ultimately have "(a, r) = (a', r')"
      using m m' by (intro inj_onD [where f = "\<lambda>p. name (snd p)"]) simp_all
    then show ?thesis by simp
  qed
qed

lemma read_registers_foldl:
  "read_registers b (of_nat bc / 2) i regs = Inr regs' \<Longrightarrow> i \<le> (bc + 1) div 2 \<Longrightarrow>
   regs' = foldl (\<lambda>acc j. store_register (1 + j) (be16 b (3 + 2 * j)) acc) regs
             [i..<(bc + 1) div 2]"
proof (induction b "of_nat bc / 2 :: rat" i regs rule: read_registers.induct)
  case (1 b i regs)
  show ?case
  proof (cases "2 * i < bc")
    case False
    with "1.prems"(2) have "i = (bc + 1) div 2" by presburger
    moreover from False "1.prems"(1) have "regs' = regs"
      by (simp add: read_registers_step [of b bc i])
    ultimately show ?thesis by simp
  next
    case True
    then have lt: "of_nat i < (of_nat bc / 2 :: rat)" by (simp only: half_less)
    from True have less: "i < (bc + 1) div 2" by presburger
    show ?thesis
    proof (cases "readUInt16BE b (3 + i * 2)")
      case (Inl e)
      with True "1.prems"(1) show ?thesis
        by (simp add: read_registers_step [of b bc i])
    next
      case (Inr v)
      then have v: "v = be16 b (3 + 2 * i)"
        by (simp add: readUInt16BE_def be16_def mult.commute split: if_splits)
      have "read_registers b (of_nat bc / 2) (i + 1) (store_register (1 + i) v regs) = Inr regs'"
        using "1.prems"(1) True Inr
        by (simp only: read_registers_step [of b bc i] if_True sum.case)
      moreover from less have "i + 1 \<le> (bc + 1) div 2" by simp
      ultimately have "regs' = foldl (\<lambda>acc j. store_register (1 + j) (be16 b (3 + 2 * j)) acc)
          (store_register (1 + i) v regs) [i + 1..<(bc + 1) div 2]"
        by (rule "1.hyps" [OF lt Inr refl])
      then show ?thesis
        using less by (simp add: upt_conv_Cons v)
    qed
  qed
qed

lemma foldl_store_lookup:
  assumes "n \<le> 255" "i \<le> j" "j < n"
  shows "map_of (foldl (\<lambda>acc j. store_register (1 + j) (be16 b (3 + 2 * j)) acc) regs [i..<n])
           (register_key (1 + j)) = Some (register_entry (1 + j) (be16 b (3 + 2 * j)))"
  using assms
proof (induction n)
  case 0
  then show ?case by simp
next
  case (Suc n)
  from Suc.prems have i: "i \<le> n" by simp
  show ?case
  proof (cases "j = n")
    case True
    with i show ?thesis
      by (simp add: store_register_key map_of_set_prop)
  next
    case False
    with Suc.prems have "j < n" by simp
    moreover from Suc.prems have "n \<le> 255" by simp
    ultimately have IH: "map_of (foldl (\<lambda>acc j. store_register (1 + j) (be16 b (3 + 2 * j)) acc) regs [i..<n])
           (register_key (1 + j)) = Some (register_entry (1 + j) (be16 b (3 + 2 * j)))"
      using Suc.IH Suc.prems(2) by simp
    have "register_key (1 + j) \<noteq> register_key (1 + n)"
    proof
      assume "register_key (1 + j) = register_key (1 + n)"
      moreover from Suc.prems have "1 + j < 256" "1 + n < 256" by simp_all
      ultimately have "1 + j = 1 + n" by (intro register_key_inj)
      with False show False by simp
    qed
    with i IH show ?thesis
      by (simp add: store_register_key map_of_set_prop)
  qed
qed

lemma foldl_store_keys:
  assumes "n \<le> 255"
  shows "keys (foldl (\<lambda>acc j. store_register (1 + j) (be16 b (3 + 2 * j)) acc) [] [0..<n])
           = map (\<lambda>j. register_key (1 + j)) [0..<n]"
  using assms
proof (induction n)
  case 0
  show ?case by (simp add: keys_def)
next
  case (Suc n)
  then have IH: "keys (foldl (\<lambda>acc j. store_register (1 + j) (be16 b (3 + 2 * j)) acc) [] [0..<n])
           = map (\<lambda>j. register_key (1 + j)) [0..<n]"
    by simp
  have "register_key (1 + n) \<notin> set (map (\<lambda>j. register_key (1 + j)) [0..<n])"
  proof
    assume "register_key (1 + n) \<in> set (map (\<lambda>j. register_key (1 + j)) [0..<n])"
    then obtain j where j: "j < n" "register_key (1 + n) = register_key (1 + j)" by auto
    moreover from Suc.prems j(1) have "1 + n < 256" "1 + j < 256" by simp_all
    ultimately have "1 + n = 1 + j" by (intro register_key_inj)
    with j(1) show False by simp
  qed
  with IH show ?case
    by (simp add: store_register_key keys_set_prop)
qed

text \<open>
  The entry of a register of the table has the four properties of the descriptor, and every
  other property of the decoded value; the entry of another address has the raw value twice.
\<close>

lemma known_entry_fields:
  "\<exists>fields. known_entry r v = JObj fields \<and>
     map_of fields ''unit'' = Some (JStr (unit r)) \<and>
     map_of fields ''description'' = Some (JStr (description r)) \<and>
     map_of fields ''address'' = Some (num (address r)) \<and>
     map_of fields ''read_only'' = Some (JBool (readOnly r)) \<and>
     (\<forall>k. k \<notin> {''unit'', ''description'', ''address'', ''read_only''} \<longrightarrow>
        map_of fields k = map_of (decodeRegisterValue r v) k)"
  by (simp add: known_entry_def obj_literal_def map_of_set_prop)

lemma unknown_entry_fields:
  "unknown_entry a v =
     JObj [(''value'', num v), (''raw_value'', num v), (''unit'', JStr ''unknown''),
           (''description'', JStr ''Unknown register''), (''address'', num a)]"
  by (simp add: unknown_entry_def)

lemma read_holding_registers:
  assumes "inputToBuffer inp = Inr b" and "4 \<le> length b" and "verifyCRC b = Inr True"
    and "unat (b ! 1) = 0x03" and "decodeModbusMessage now inp = Inr res"
  shows "\<exists>regs. get_prop res ''registers'' = Some (JObj regs) \<and>
      keys regs = map (\<lambda>i. register_key (0x0001 + i)) [0..<(unat (b ! 2) + 1) div 2] \<and>
      (\<forall>i. 2 * i < unat (b ! 2) \<longrightarrow>
         map_of regs (register_key (0x0001 + i))
           = Some (register_entry (0x0001 + i) (be16 b (3 + 2 * i))))"
proof -
  let ?bc = "unat (b ! 2)"
  let ?n = "(?bc + 1) div 2"
  let ?f = "foldl (\<lambda>acc j. store_register (1 + j) (be16 b (3 + 2 * j)) acc) [] [0..<?n]"
  have "?bc < 2 ^ LENGTH(8)" by (rule unsigned_less)
  then have "?bc < 256" by simp
  then have n: "?n \<le> 255" by simp
  have d: "decodeModbusMessage now inp = dispatch now b"
    using assms(1-3) by (simp add: decode_unfold)
  with assms(5) have "dispatch now b = Inr res" by simp
  then obtain regs where regs: "read_registers b (of_nat ?bc / 2) 0 [] = Inr regs"
    and res: "res = set_prop ''registers'' (JObj regs) (initial_result now b)"
    using assms(4) by (auto simp add: dispatch_def Let_def split: sum.splits)
  from regs have f: "regs = ?f"
    by (rule read_registers_foldl) simp
  have g: "get_prop res ''registers'' = Some (JObj regs)"
    by (simp add: res get_prop_def map_of_set_prop)
  have k: "keys regs = map (\<lambda>i. register_key (1 + i)) [0..<?n]"
    unfolding f using n by (rule foldl_store_keys)
  have l: "map_of regs (register_key (1 + i)) = Some (register_entry (1 + i) (be16 b (3 + 2 * i)))"
    if "2 * i < ?bc" for i
  proof -
    from that have "i < ?n" by presburger
    with n show ?thesis
      unfolding f by (intro foldl_store_lookup) simp_all
  qed
  from g k l show ?thesis by auto
qed

end
